theory Spec2Isabelle
  imports Main
begin

chapter \<open>The embedding of the customer console\<close>

section \<open>The page-window calculator\<close>

text \<open>
  \<^verbatim>\<open>getPages\<close> occurs three times in the repository (the two versions of the listing
  page and the pagination prototype), with the same body each time:
  \<^verbatim>\<open>
  const getPages = (currentPage: number, totalPages: number, maxVisiblePages = 5) => {
    const totalPageNumbers = Math.min(maxVisiblePages, totalPages);
    const halfWay = Math.floor(totalPageNumbers / 2);
    const startPage = Math.max(
      Math.min(currentPage - halfWay, totalPages - totalPageNumbers + 1), 1);
    const endPage = Math.min(startPage + totalPageNumbers - 1, totalPages);
    return Array.from({ length: endPage - startPage + 1 },
                      (_, index) => startPage + index);
  };
  \<close>
  The body is embedded twice. \<open>getPages\<close> reads its arithmetic over the integers, where
  every operation is exact: \<^verbatim>\<open>Math.floor(n / 2)\<close> is the floor division \<open>n div 2\<close> of
  \<^typ>\<open>int\<close>, and \<^verbatim>\<open>Array.from({length: l}, f)\<close> clamps a negative length to 0 and
  otherwise yields \<open>f\<close> at the indices \<open>0, ..., l - 1\<close>; \<^term>\<open>nat\<close> performs the same
  clamp. \<open>getPages_number\<close>, below, reads the same body over the numbers of JavaScript,
  which are double-precision floats and round.
  The default value 5 of \<^verbatim>\<open>maxVisiblePages\<close> is the value every call site passes
  explicitly; it is the constant \<open>maxVisiblePages\<close> of the \<^verbatim>\<open>Pagination\<close> component.
\<close>

definition getPages :: "int \<Rightarrow> int \<Rightarrow> int \<Rightarrow> int list" where
  "getPages currentPage totalPages maxVisiblePages =
     (let totalPageNumbers = min maxVisiblePages totalPages;
          halfWay = totalPageNumbers div 2;
          startPage = max (min (currentPage - halfWay) (totalPages - totalPageNumbers + 1)) 1;
          endPage = min (startPage + totalPageNumbers - 1) totalPages
      in map (\<lambda>index. startPage + int index) [0 ..< nat (endPage - startPage + 1)])"

subsection \<open>The same body over double-precision numbers\<close>

text \<open>
  A JavaScript \<^verbatim>\<open>number\<close> is an IEEE 754 double. The page window is about integers,
  so only the integer-valued numbers are modelled, together with the two infinities and
  \<^verbatim>\<open>NaN\<close>, which the arithmetic can produce from them; \<^verbatim>\<open>-0\<close> is identified with 0.
  Fractions never arise: the only division of the body, by 2, is followed by
  \<^verbatim>\<open>Math.floor\<close> at once.
\<close>

datatype Number = Finite int | PosInfinity | NegInfinity | NaN

text \<open>
  A double has 53 significant bits. An integer of magnitude below \<open>2 ^ 53\<close> is a double;
  from there on the doubles are the multiples of \<open>ulp\<close>, the spacing of the binade:
  2 from \<open>2 ^ 53\<close>, 4 from \<open>2 ^ 54\<close>, and so on. The exact result of an addition or
  subtraction is rounded to the nearest double, a tie going to the one whose significand
  is even, and a result of magnitude \<open>2 ^ 1024\<close> or more overflows to an infinity.
\<close>

function ulp :: "int \<Rightarrow> int" where
  "ulp a = (if a < 2 ^ 53 then 1 else 2 * ulp (a div 2))"
  by pat_completeness auto
termination
  by (relation "measure nat") auto

declare ulp.simps [simp del]

definition roundToDouble :: "int \<Rightarrow> int" where
  "roundToDouble x =
     (let u = ulp \<bar>x\<bar>; q = x div u; r = x mod u
      in if 2 * r < u \<or> (2 * r = u \<and> even q) then q * u else (q + 1) * u)"

definition fromExact :: "int \<Rightarrow> Number" where
  "fromExact x =
     (let y = roundToDouble x
      in if 2 ^ 1024 \<le> y then PosInfinity
         else if y \<le> - (2 ^ 1024) then NegInfinity
         else Finite y)"

text \<open>
  The integers that are doubles: the multiples of the spacing of their binade, below the
  overflow threshold.
\<close>

definition representable :: "int \<Rightarrow> bool" where
  "representable x \<longleftrightarrow> x mod ulp \<bar>x\<bar> = 0"

definition isDouble :: "int \<Rightarrow> bool" where
  "isDouble x \<longleftrightarrow> representable x \<and> \<bar>x\<bar> < 2 ^ 1024"

text \<open>
  \<^verbatim>\<open>a + b\<close> and \<^verbatim>\<open>a - b\<close>: \<^verbatim>\<open>NaN\<close> is contagious, and the sum of the two opposite
  infinities is \<^verbatim>\<open>NaN\<close>.
\<close>

fun negate :: "Number \<Rightarrow> Number" where
  "negate (Finite a) = Finite (- a)"
| "negate PosInfinity = NegInfinity"
| "negate NegInfinity = PosInfinity"
| "negate NaN = NaN"

fun add :: "Number \<Rightarrow> Number \<Rightarrow> Number" where
  "add NaN b = NaN"
| "add a NaN = NaN"
| "add (Finite a) (Finite b) = fromExact (a + b)"
| "add PosInfinity NegInfinity = NaN"
| "add NegInfinity PosInfinity = NaN"
| "add PosInfinity b = PosInfinity"
| "add NegInfinity b = NegInfinity"
| "add (Finite a) b = b"

definition sub :: "Number \<Rightarrow> Number \<Rightarrow> Number" where
  "sub a b = add a (negate b)"

text \<open>
  \<^verbatim>\<open>Math.min\<close> and \<^verbatim>\<open>Math.max\<close> yield \<^verbatim>\<open>NaN\<close> when an argument is \<^verbatim>\<open>NaN\<close>.
  Half of a double is exact, so \<^verbatim>\<open>Math.floor(n / 2)\<close> of an integer \<open>n\<close> is \<open>n div 2\<close>.
\<close>

fun less_Number :: "Number \<Rightarrow> Number \<Rightarrow> bool" where
  "less_Number NaN b = False"
| "less_Number a NaN = False"
| "less_Number (Finite a) (Finite b) = (a < b)"
| "less_Number a NegInfinity = False"
| "less_Number NegInfinity b = True"
| "less_Number PosInfinity b = False"
| "less_Number (Finite a) PosInfinity = True"

definition Math_min :: "Number \<Rightarrow> Number \<Rightarrow> Number" where
  "Math_min a b = (if a = NaN \<or> b = NaN then NaN else if less_Number b a then b else a)"

definition Math_max :: "Number \<Rightarrow> Number \<Rightarrow> Number" where
  "Math_max a b = (if a = NaN \<or> b = NaN then NaN else if less_Number a b then b else a)"

fun Math_floor_half :: "Number \<Rightarrow> Number" where
  "Math_floor_half (Finite n) = Finite (n div 2)"
| "Math_floor_half n = n"

text \<open>
  \<^verbatim>\<open>Array.from({ length: l }, mapFn)\<close> converts the length with \<^verbatim>\<open>ToLength\<close>
  (\<^verbatim>\<open>NaN\<close> and everything up to 0 become 0, everything else is capped at
  \<open>2 ^ 53 - 1\<close>), throws a \<^verbatim>\<open>RangeError\<close> when the result exceeds the largest array
  length \<open>2 ^ 32 - 1\<close>, and otherwise calls \<^verbatim>\<open>mapFn\<close> at the indices below it.
\<close>

datatype RangeError = RangeError

fun ToLength :: "Number \<Rightarrow> int" where
  "ToLength (Finite l) = (if l \<le> 0 then 0 else min l (2 ^ 53 - 1))"
| "ToLength PosInfinity = 2 ^ 53 - 1"
| "ToLength NegInfinity = 0"
| "ToLength NaN = 0"

definition Array_from :: "Number \<Rightarrow> (Number \<Rightarrow> Number) \<Rightarrow> RangeError + Number list" where
  "Array_from arrayLength mapFn =
     (let len = ToLength arrayLength
      in if 2 ^ 32 - 1 < len then Inl RangeError
         else Inr (map (\<lambda>index. mapFn (Finite (int index))) [0 ..< nat len]))"

definition getPages_number :: "Number \<Rightarrow> Number \<Rightarrow> Number \<Rightarrow> RangeError + Number list" where
  "getPages_number currentPage totalPages maxVisiblePages =
     (let totalPageNumbers = Math_min maxVisiblePages totalPages;
          halfWay = Math_floor_half totalPageNumbers;
          startPage = Math_max
            (Math_min (sub currentPage halfWay)
                      (add (sub totalPages totalPageNumbers) (Finite 1)))
            (Finite 1);
          endPage = Math_min (sub (add startPage totalPageNumbers) (Finite 1)) totalPages
      in Array_from (add (sub endPage startPage) (Finite 1)) (\<lambda>index. add startPage index))"

section \<open>Values, errors and promises\<close>

text \<open>
  The values a JavaScript program can throw or receive as parsed JSON. Only the shape the
  request operations look at is kept: property reads on plain data.
\<close>

datatype JsValue =
    JUndefined
  | JNull
  | JBoolean bool
  | JNumber int
  | JString string
  | JArray "JsValue list"
  | JObject "(string \<times> JsValue) list"

text \<open>
  A built-in \<^verbatim>\<open>Error\<close> (a \<^verbatim>\<open>TypeError\<close> of a failed \<^verbatim>\<open>fetch\<close>, a
  \<^verbatim>\<open>SyntaxError\<close> of \<^verbatim>\<open>response.json()\<close>) with its name and message.
\<close>

datatype JsError = JsError (name: string) (error_message: string)

text \<open>
  The validation library's error. The library is not part of the repository, so a
  \<^verbatim>\<open>ZodError\<close> is taken as data: the list of its issues, and the string its
  \<^verbatim>\<open>message\<close> property yields (the library computes it as the indented JSON
  serialisation of the issue list). Of an issue the repository reads only \<^verbatim>\<open>message\<close>;
  \<^verbatim>\<open>code\<close> and \<^verbatim>\<open>path\<close> are kept to tell issues apart. \<^verbatim>\<open>error.errors\<close> is the
  library's alias of \<^verbatim>\<open>error.issues\<close>.
\<close>

datatype ZodIssue = ZodIssue (code: string) (path: "string list") (issue_message: string)

datatype ZodError = ZodError (issues: "ZodIssue list") (zod_message: string)

definition errors :: "ZodError \<Rightarrow> ZodIssue list" where
  "errors error = issues error"

text \<open>
  \<^verbatim>\<open>
  export class NetError extends Error {
    constructor(
      readonly type: "server-error" | "network-error" | "unknown-error" | "validation-error",
      readonly message: string,
      readonly inner?: Error,
    ) { super(message); }
  }
  \<close>
  The parameter properties are assigned from the arguments after \<^verbatim>\<open>super(message)\<close>,
  whatever their runtime values are: the catch handlers below pass \<^verbatim>\<open>error.message\<close>
  of a value of type \<^verbatim>\<open>any\<close>, so \<open>message\<close> holds a \<^typ>\<open>JsValue\<close> and \<open>inner\<close> any
  thrown value. A thrown value is told apart by the \<^verbatim>\<open>instanceof\<close> tests of the
  handlers, in their order: a \<^verbatim>\<open>NetError\<close>, a \<^verbatim>\<open>ZodError\<close>, any other
  \<^verbatim>\<open>Error\<close>, or a value that is no \<^verbatim>\<open>Error\<close> at all.
\<close>

datatype NetErrorType = ServerError | NetworkError | UnknownError | ValidationError

datatype Thrown =
    ThrownNetError NetError
  | ThrownZodError ZodError
  | ThrownError JsError
  | ThrownValue JsValue
and NetError = NetError (type: NetErrorType) (message: JsValue) (inner: "Thrown option")

text \<open>
  A settled promise: rejected with a thrown value (\<open>Inl\<close>) or fulfilled (\<open>Inr\<close>).
  \<^verbatim>\<open>p.then(f)\<close> runs \<open>f\<close> on the value of a fulfilled \<open>p\<close> and adopts the promise \<open>f\<close>
  returns or the value it throws; a rejected \<open>p\<close> passes through. \<^verbatim>\<open>p.catch(h)\<close> runs
  \<open>h\<close> on the reason of a rejected \<open>p\<close>.
\<close>

type_synonym 'a Promise = "Thrown + 'a"

definition then_promise :: "'a Promise \<Rightarrow> ('a \<Rightarrow> 'b Promise) \<Rightarrow> 'b Promise" where
  "then_promise p onFulfilled =
     (case p of Inl reason \<Rightarrow> Inl reason | Inr v \<Rightarrow> onFulfilled v)"

definition catch_promise :: "'a Promise \<Rightarrow> (Thrown \<Rightarrow> 'a Promise) \<Rightarrow> 'a Promise" where
  "catch_promise p onRejected =
     (case p of Inl reason \<Rightarrow> onRejected reason | Inr v \<Rightarrow> Inr v)"

text \<open>
  Reading \<^verbatim>\<open>error.message\<close> of a value that is no \<^verbatim>\<open>Error\<close>: on \<^verbatim>\<open>undefined\<close> and
  \<^verbatim>\<open>null\<close> the read itself throws a \<^verbatim>\<open>TypeError\<close> (the text is that of V8;
  other engines word it differently); a plain object yields its own \<^verbatim>\<open>message\<close> property or \<^verbatim>\<open>undefined\<close>;
  booleans, numbers, strings and arrays have no such property and yield \<^verbatim>\<open>undefined\<close>.
\<close>

definition nullishTypeError :: "string \<Rightarrow> JsError" where
  "nullishTypeError what =
     JsError ''TypeError''
       (''Cannot read properties of '' @ what @ '' (reading '' @ [CHR 0x27] @ ''message''
          @ [CHR 0x27] @ '')'')"

fun get_message :: "JsValue \<Rightarrow> JsError + JsValue" where
  "get_message JUndefined = Inl (nullishTypeError ''undefined'')"
| "get_message JNull = Inl (nullishTypeError ''null'')"
| "get_message (JObject props) =
     Inr (case map_of props ''message'' of None \<Rightarrow> JUndefined | Some v \<Rightarrow> v)"
| "get_message _ = Inr JUndefined"

section \<open>The request operations\<close>

text \<open>
  Every request operation ends in the same handler, repeated verbatim in the source:
  \<^verbatim>\<open>
  .catch((error) => {
    if (error instanceof NetError) { throw error; }
    if (error instanceof ZodError) {
      throw new NetError("validation-error", error.message, error);
    }
    if (error instanceof Error) {
      throw new NetError("network-error", error.message, error);
    }
    throw new NetError("unknown-error", error.message, error);
  });
  \<close>
  The handler always throws, so the promise it yields is rejected.
\<close>

fun catchHandler :: "Thrown \<Rightarrow> 'a Promise" where
  "catchHandler (ThrownNetError error) = Inl (ThrownNetError error)"
| "catchHandler (ThrownZodError error) =
     Inl (ThrownNetError
       (NetError ValidationError (JString (zod_message error)) (Some (ThrownZodError error))))"
| "catchHandler (ThrownError error) =
     Inl (ThrownNetError
       (NetError NetworkError (JString (error_message error)) (Some (ThrownError error))))"
| "catchHandler (ThrownValue error) =
     (case get_message error of
        Inl typeError \<Rightarrow> Inl (ThrownError typeError)
      | Inr m \<Rightarrow> Inl (ThrownNetError (NetError UnknownError m (Some (ThrownValue error)))))"

text \<open>
  The transport's response: its \<^verbatim>\<open>ok\<close> flag and the outcomes of the promises
  \<^verbatim>\<open>response.text()\<close> and \<^verbatim>\<open>response.json()\<close>, either of which may reject.
\<close>

datatype Response =
  Response (ok: bool) (text_result: "string Promise") (json_result: "JsValue Promise")

text \<open>
  A schema of the validation library, as what its parse does to a JSON value: a
  \<^verbatim>\<open>ZodError\<close> or the decoded value. \<^verbatim>\<open>schema.parseAsync(data)\<close> rejects with the
  error or fulfils with the value. The schemas themselves (\<^verbatim>\<open>CustomerListingSchema\<close>,
  \<^verbatim>\<open>GetCustomerSchema\<close>) are parameters of the operations.
\<close>

type_synonym 'a Schema = "JsValue \<Rightarrow> ZodError + 'a"

definition parseAsync :: "'a Schema \<Rightarrow> JsValue \<Rightarrow> 'a Promise" where
  "parseAsync schema data =
     (case schema data of Inl error \<Rightarrow> Inl (ThrownZodError error) | Inr v \<Rightarrow> Inr v)"

text \<open>
  Each operation is the chain \<^verbatim>\<open>fetch(url, ...).then(...).catch(...)\<close>; the argument
  \<open>fetched\<close> is the settled promise of the \<^verbatim>\<open>fetch\<close> call, whose request (URL, method,
  body) plays no part in what follows.
  \<^verbatim>\<open>
  .then((response) => {
    if (!response.ok) {
      return response.text().then((message) => {
        throw new NetError("server-error", message);
      });
    }
    return response.json().then((data) => CustomerListingSchema.parseAsync(data));
  })
  \<close>
  \<^verbatim>\<open>fetchCustomer\<close> and \<^verbatim>\<open>updateCustomer\<close> parse with \<^verbatim>\<open>GetCustomerSchema\<close>,
  \<^verbatim>\<open>registerCustomer\<close> returns \<^verbatim>\<open>response.json()\<close> unparsed, and
  \<^verbatim>\<open>deleteCustomer\<close> returns \<^verbatim>\<open>Promise.resolve()\<close>.
\<close>

definition fetchCustomerListing :: "'a Schema \<Rightarrow> Response Promise \<Rightarrow> 'a Promise" where
  "fetchCustomerListing CustomerListingSchema fetched =
     catch_promise
       (then_promise fetched (\<lambda>response.
          if \<not> ok response then
            then_promise (text_result response) (\<lambda>message.
              Inl (ThrownNetError (NetError ServerError (JString message) None)))
          else
            then_promise (json_result response) (\<lambda>data.
              parseAsync CustomerListingSchema data)))
       catchHandler"

definition deleteCustomer :: "Response Promise \<Rightarrow> unit Promise" where
  "deleteCustomer fetched =
     catch_promise
       (then_promise fetched (\<lambda>response.
          if \<not> ok response then
            then_promise (text_result response) (\<lambda>message.
              Inl (ThrownNetError (NetError ServerError (JString message) None)))
          else Inr ()))
       catchHandler"

definition registerCustomer :: "Response Promise \<Rightarrow> JsValue Promise" where
  "registerCustomer fetched =
     catch_promise
       (then_promise fetched (\<lambda>response.
          if \<not> ok response then
            then_promise (text_result response) (\<lambda>message.
              Inl (ThrownNetError (NetError ServerError (JString message) None)))
          else json_result response))
       catchHandler"

definition fetchCustomer :: "'a Schema \<Rightarrow> Response Promise \<Rightarrow> 'a Promise" where
  "fetchCustomer GetCustomerSchema fetched =
     catch_promise
       (then_promise fetched (\<lambda>response.
          if \<not> ok response then
            then_promise (text_result response) (\<lambda>message.
              Inl (ThrownNetError (NetError ServerError (JString message) None)))
          else
            then_promise (json_result response) (\<lambda>data.
              parseAsync GetCustomerSchema data)))
       catchHandler"

definition updateCustomer :: "'a Schema \<Rightarrow> Response Promise \<Rightarrow> 'a Promise" where
  "updateCustomer GetCustomerSchema fetched =
     catch_promise
       (then_promise fetched (\<lambda>response.
          if \<not> ok response then
            then_promise (text_result response) (\<lambda>message.
              Inl (ThrownNetError (NetError ServerError (JString message) None)))
          else
            then_promise (json_result response) (\<lambda>data.
              parseAsync GetCustomerSchema data)))
       catchHandler"

section \<open>The form submission handlers\<close>

text \<open>
  Both forms (register and manage) collect the entries of the form into an object, where
  a later entry of the same key overwrites the earlier one:
  \<^verbatim>\<open>
  const payload = Array.from(formData.entries()).reduce(
    (acc, [key, value]) => { acc[key] = value?.toString(); return acc; },
    {} as Record<string, string>);
  \<close>
  An entry's value is a string or a file, whose \<^verbatim>\<open>toString()\<close> is \<^verbatim>\<open>[object File]\<close>.
  The object is the map of its own properties; the handlers never enumerate it, so the
  order of its keys is not kept. Assigning a string to the key \<^verbatim>\<open>__proto__\<close> of a plain
  object creates no property.
\<close>

datatype FormDataEntryValue = EntryString string | EntryFile string

fun toString :: "FormDataEntryValue \<Rightarrow> string" where
  "toString (EntryString s) = s"
| "toString (EntryFile fileName) = ''[object File]''"

definition assign :: "(string \<rightharpoonup> string) \<Rightarrow> string \<Rightarrow> string \<Rightarrow> (string \<rightharpoonup> string)" where
  "assign acc key v = (if key = ''__proto__'' then acc else acc(key \<mapsto> v))"

definition collectPayload :: "(string \<times> FormDataEntryValue) list \<Rightarrow> (string \<rightharpoonup> string)" where
  "collectPayload entries =
     foldl (\<lambda>acc (key, v). assign acc key (toString v)) Map.empty entries"

text \<open>\<^verbatim>\<open>Array.prototype.join\<close> on an array of strings.\<close>

fun join :: "string list \<Rightarrow> string \<Rightarrow> string" where
  "join [] separator = []"
| "join [x] separator = x"
| "join (x # y # xs) separator = x @ separator @ join (y # xs) separator"

text \<open>
  The handlers, as the list of effects they perform in order. \<^verbatim>\<open>mutate\<close> is the only
  way to the network: it runs the mutation function, \<^verbatim>\<open>registerCustomer\<close> or
  \<^verbatim>\<open>updateCustomer\<close>. The schema's \<^verbatim>\<open>safeParse\<close> is a parameter.
  \<^verbatim>\<open>
  onSubmit={(e) => {
    e.preventDefault();
    const formData = new FormData(e.currentTarget);
    const payload = ...;
    const result = RegisterCustomerSchema.safeParse(payload);
    if (!result.success) {
      const msg = result.error.errors.map((e) => e.message).join(", ");
      window.alert(`${msg}\nPlease correct the errors and try again.`);
      return;
    }
    e.currentTarget.reset();
    mutate(result.data, { onSuccess: ... });
  }}
  \<close>
  The manage form validates with \<^verbatim>\<open>UpdateCustomerSchema\<close> and does not reset the form
  before \<^verbatim>\<open>mutate\<close>.
\<close>

type_synonym 'a SafeParse = "(string \<rightharpoonup> string) \<Rightarrow> ZodError + 'a"

datatype 'a Effect = PreventDefault | Alert string | Reset | Mutate 'a

definition register_onSubmit ::
  "'a SafeParse \<Rightarrow> (string \<times> FormDataEntryValue) list \<Rightarrow> 'a Effect list" where
  "register_onSubmit RegisterCustomerSchema formData =
     (let payload = collectPayload formData;
          result = RegisterCustomerSchema payload
      in case result of
           Inl error \<Rightarrow>
             (let msg = join (map issue_message (errors error)) '', ''
              in [PreventDefault,
                  Alert (msg @ ''\<newline>Please correct the errors and try again.'')])
         | Inr data \<Rightarrow> [PreventDefault, Reset, Mutate data])"

definition manage_onSubmit ::
  "'a SafeParse \<Rightarrow> (string \<times> FormDataEntryValue) list \<Rightarrow> 'a Effect list" where
  "manage_onSubmit UpdateCustomerSchema formData =
     (let payload = collectPayload formData;
          result = UpdateCustomerSchema payload
      in case result of
           Inl error \<Rightarrow>
             (let msg = join (map issue_message (errors error)) '', ''
              in [PreventDefault,
                  Alert (msg @ ''\<newline>Please correct the errors and try again.'')])
         | Inr data \<Rightarrow> [PreventDefault, Mutate data])"

section \<open>The listing controller\<close>

text \<open>
  The state of the \<^verbatim>\<open>Listing\<close> component: the two \<^verbatim>\<open>useState\<close> cells, and the query
  keys that have been invalidated on the query client.
  \<^verbatim>\<open>
  const [page, setPage] = useState(1);
  const [limit, setLimit] = useState(5);
  const { variables, mutate, status } = useMutation({
    mutationKey: ["delete-customer"],
    mutationFn: (id: number) => deleteCustomer(id),
    onSettled: () => {
      setPage(1);
      qc.invalidateQueries({ queryKey: ["customer-listing", 1, limit] });
    },
  });
  \<close>
  The mutation runs \<^verbatim>\<open>onSettled\<close> when the promise of \<^verbatim>\<open>deleteCustomer\<close> has settled,
  fulfilled or rejected; the callback takes no argument.
\<close>

datatype QueryKey = CustomerListing int int

record Listing =
  page :: int
  limit :: int
  invalidated :: "QueryKey list"

definition setPage :: "int \<Rightarrow> Listing \<Rightarrow> Listing" where
  "setPage p st = st\<lparr>page := p\<rparr>"

definition invalidateQueries :: "QueryKey \<Rightarrow> Listing \<Rightarrow> Listing" where
  "invalidateQueries queryKey st = st\<lparr>invalidated := invalidated st @ [queryKey]\<rparr>"

definition onSettled :: "Listing \<Rightarrow> Listing" where
  "onSettled st = invalidateQueries (CustomerListing 1 (limit st)) (setPage 1 st)"

definition delete_settled :: "unit Promise \<Rightarrow> Listing \<Rightarrow> Listing" where
  "delete_settled outcome st =
     (case outcome of Inl error \<Rightarrow> onSettled st | Inr data \<Rightarrow> onSettled st)"

section \<open>Example inputs\<close>

text \<open>
  A response of status 500 with the body \<^verbatim>\<open>boom\<close>, which is no JSON; a response of
  status 200 with the body \<^verbatim>\<open>{}\<close>; and a schema that, like every schema built by
  \<^verbatim>\<open>ApiResponseSchema\<close>, requires the property \<^verbatim>\<open>data\<close> and reports its absence by one
  issue with the message \<^verbatim>\<open>Required\<close>.
\<close>

definition boomResponse :: Response where
  "boomResponse =
     Response False (Inr ''boom'')
       (Inl (ThrownError (JsError ''SyntaxError'' ''Unexpected token b in JSON at position 0'')))"

definition emptyObjectResponse :: Response where
  "emptyObjectResponse = Response True (Inr ''{}'') (Inr (JObject []))"

definition requiredDataMessage :: string where
  \<open>requiredDataMessage =
     ''[\<newline>  {\<newline>    "code": "invalid_type",\<newline>    "expected": "object",\<newline>    "received": "undefined",\<newline>    "path": [\<newline>      "data"\<newline>    ],\<newline>    "message": "Required"\<newline>  }\<newline>]''\<close>

definition requiredDataError :: ZodError where
  "requiredDataError =
     ZodError [ZodIssue ''invalid_type'' [''data''] ''Required''] requiredDataMessage"

definition requireData :: "JsValue Schema" where
  "requireData body =
     (case body of
        JObject props \<Rightarrow>
          (case map_of props ''data'' of None \<Rightarrow> Inl requiredDataError | Some v \<Rightarrow> Inr v)
      | _ \<Rightarrow> Inl requiredDataError)"

text \<open>
  For the register form: a form whose e-mail field the browser accepts and the e-mail
  check of \<^verbatim>\<open>RegisterCustomerSchema\<close> rejects, a form that passes, and a \<^verbatim>\<open>safeParse\<close>
  that does to these two forms what that schema does: it rejects exactly that address,
  with the issue \<^verbatim>\<open>Invalid email\<close>.
\<close>

definition invalidEmailMessage :: string where
  \<open>invalidEmailMessage =
     ''[\<newline>  {\<newline>    "validation": "email",\<newline>    "code": "invalid_string",\<newline>    "message": "Invalid email",\<newline>    "path": [\<newline>      "email"\<newline>    ]\<newline>  }\<newline>]''\<close>

definition invalidEmailError :: ZodError where
  "invalidEmailError =
     ZodError [ZodIssue ''invalid_string'' [''email''] ''Invalid email''] invalidEmailMessage"

definition rejectEmail :: "(string \<rightharpoonup> string) SafeParse" where
  "rejectEmail payload =
     (if payload ''email'' = Some ''a@b'' then Inl invalidEmailError else Inr payload)"

definition invalidEmailForm :: "(string \<times> FormDataEntryValue) list" where
  "invalidEmailForm =
     [(''name'', EntryString ''jane''), (''email'', EntryString ''a@b''),
      (''contact'', EntryString ''+60198765432''), (''dob'', EntryString ''2024-01-10'')]"

definition validForm :: "(string \<times> FormDataEntryValue) list" where
  "validForm =
     [(''name'', EntryString ''jane''), (''email'', EntryString ''jane.smith@mail.net''),
      (''contact'', EntryString ''+60198765432''), (''dob'', EntryString ''2024-01-10'')]"

text \<open>
  For the manage form: \<^verbatim>\<open>UpdateCustomerSchema\<close> is
  \<^verbatim>\<open>CustomerSchema.pick({ name: true, email: true, contact: true, dob: true })\<close>, four
  fields of \<^verbatim>\<open>z.string()\<close> without further checks. The payload holds strings only, so
  \<^verbatim>\<open>safeParse\<close> fails exactly when one of the four keys is missing, with one issue
  \<^verbatim>\<open>Required\<close> for each missing key in the order of the schema, and otherwise yields the
  four fields. The form below lacks the e-mail field.
\<close>

definition updateFields :: "string list" where
  "updateFields = [''name'', ''email'', ''contact'', ''dob'']"

definition requiredIssue :: "string \<Rightarrow> ZodIssue" where
  "requiredIssue key = ZodIssue ''invalid_type'' [key] ''Required''"

definition requiredIssueText :: "string \<Rightarrow> string" where
  \<open>requiredIssueText key =
     ''  {\<newline>    "code": "invalid_type",\<newline>    "expected": "string",\<newline>    "received": "undefined",\<newline>    "path": [\<newline>      "'' @ key @ ''"\<newline>    ],\<newline>    "message": "Required"\<newline>  }''\<close>

definition UpdateCustomerSchema_safeParse :: "(string \<rightharpoonup> string) SafeParse" where
  "UpdateCustomerSchema_safeParse payload =
     (let missing = filter (\<lambda>key. payload key = None) updateFields
      in if missing = [] then Inr (payload |` set updateFields)
         else Inl (ZodError (map requiredIssue missing)
                (''[\<newline>'' @ join (map requiredIssueText missing) '',\<newline>'' @ ''\<newline>]'')))"

definition missingEmailError :: ZodError where
  "missingEmailError =
     ZodError [requiredIssue ''email'']
       (''[\<newline>'' @ requiredIssueText ''email'' @ ''\<newline>]'')"

definition missingEmailForm :: "(string \<times> FormDataEntryValue) list" where
  "missingEmailForm =
     [(''name'', EntryString ''jane''),
      (''contact'', EntryString ''+60198765432''), (''dob'', EntryString ''2024-01-10'')]"

chapter \<open>Verification\<close>

section \<open>The page window\<close>

lemma map_offset_upto:
  "map (\<lambda>index. s + int index) [0 ..< nat l] = [s .. s + l - 1]"
proof (induction "nat l" arbitrary: l)
  case 0
  then show ?case by simp
next
  case (Suc n)
  then have l: "nat (l - 1) = n" "0 < l" by simp_all
  have "[0 ..< nat l] = [0 ..< nat (l - 1)] @ [nat (l - 1)]"
    using Suc.hyps(2) l by (metis upt_Suc_append zero_le)
  moreover have "[s .. s + l - 1] = [s .. s + (l - 1) - 1] @ [s + l - 1]"
    using l(2) upto_rec2 [of s "s + l - 1"] by (simp add: algebra_simps)
  moreover have "map (\<lambda>index. s + int index) [0 ..< nat (l - 1)] = [s .. s + (l - 1) - 1]"
    using Suc.hyps(1) [of "l - 1"] l(1) by simp
  ultimately show ?case
    using l(2) by simp
qed

lemma getPages_upto:
  "getPages c t m =
     (let n = min m t; s = max (min (c - n div 2) (t - n + 1)) 1
      in [s .. min (s + n - 1) t])"
  by (simp add: getPages_def Let_def map_offset_upto)

lemma upto_hd_last:
  fixes s e :: int
  assumes "s \<le> e"
  shows "[s .. e] = [hd [s .. e] .. last [s .. e]]"
proof -
  have "hd [s .. e] = s" using assms by (simp add: upto.simps)
  moreover have "last [s .. e] = e" using assms by (simp add: upto_rec2)
  ultimately show ?thesis by simp
qed

text \<open>
  C1. For every integer \<open>totalPages \<ge> 0\<close>, every integer \<open>currentPage\<close> and
  \<open>maxVisiblePages = 5\<close>, the sequence returned by \<open>getPages\<close> consists only of
  integers of the closed interval from 1 to \<open>totalPages\<close>, and it is empty if and only
  if \<open>totalPages = 0\<close>.
\<close>

theorem getPages_within_bounds:
  assumes "0 \<le> totalPages"
  shows "(\<forall>p \<in> set (getPages currentPage totalPages 5). 1 \<le> p \<and> p \<le> totalPages)
         \<and> (getPages currentPage totalPages 5 = [] \<longleftrightarrow> totalPages = 0)"
proof -
  define n where "n = min 5 totalPages"
  define s where "s = max (min (currentPage - n div 2) (totalPages - n + 1)) 1"
  define e where "e = min (s + n - 1) totalPages"
  have eq: "getPages currentPage totalPages 5 = [s .. e]"
    by (simp add: getPages_upto Let_def n_def s_def e_def)
  have lo: "1 \<le> s" by (simp add: s_def)
  have hi: "e \<le> totalPages" by (simp add: e_def)
  have bounds: "\<forall>p \<in> set [s .. e]. 1 \<le> p \<and> p \<le> totalPages"
    using lo hi by auto
  have "s \<le> totalPages - n + 1" if "0 < totalPages"
    using that by (auto simp: s_def n_def)
  moreover have "1 \<le> n" if "0 < totalPages"
    using that by (simp add: n_def)
  ultimately have "s \<le> e" if "0 < totalPages"
    using that by (simp add: e_def)
  moreover have "e < s" if "totalPages = 0"
    using that lo hi by simp
  ultimately have empty: "[s .. e] = [] \<longleftrightarrow> totalPages = 0"
    using assms by (cases "totalPages = 0") auto
  show ?thesis
    using bounds empty unfolding eq by blast
qed

theorem getPages_within_bounds_witness:
  "(0::int) \<le> 3 \<and> list_all (\<lambda>p. 1 \<le> p \<and> p \<le> 3) (getPages 7 3 5)
     \<and> (getPages 7 3 5 = [] \<longleftrightarrow> (3::int) = 0) \<and> getPages 7 3 5 = [1, 2, 3]"
proof -
  have h: "(0::int) \<le> 3" by simp
  have "getPages 7 3 5 = [1, 2, 3]" by code_simp
  then show ?thesis using getPages_within_bounds [OF h, of 7] by simp
qed

subsection \<open>Length and content of the window in exact arithmetic\<close>

lemma getPages_exact_length:
  assumes "0 < totalPages" and "1 \<le> maxVisiblePages"
    and "1 \<le> currentPage" and "currentPage \<le> totalPages"
  shows "int (length (getPages currentPage totalPages maxVisiblePages)) = min maxVisiblePages totalPages
         \<and> getPages currentPage totalPages maxVisiblePages
             = [hd (getPages currentPage totalPages maxVisiblePages) ..
                last (getPages currentPage totalPages maxVisiblePages)]"
proof -
  define n where "n = min maxVisiblePages totalPages"
  define s where "s = max (min (currentPage - n div 2) (totalPages - n + 1)) 1"
  define e where "e = min (s + n - 1) totalPages"
  have eq: "getPages currentPage totalPages maxVisiblePages = [s .. e]"
    by (simp add: getPages_upto Let_def n_def s_def e_def)
  have n: "1 \<le> n" "n \<le> totalPages" using assms by (simp_all add: n_def)
  have "s \<le> totalPages - n + 1" using n by (auto simp: s_def)
  then have e: "e = s + n - 1" by (simp add: e_def)
  have le: "s \<le> e" using n e by linarith
  have len: "int (length [s .. e]) = n"
    using le by (simp add: e)
  show ?thesis using len upto_hd_last [OF le] unfolding eq n_def by simp
qed

lemma getPages_exact_member:
  assumes "1 \<le> maxVisiblePages" and "maxVisiblePages \<le> totalPages"
    and "1 \<le> currentPage" and "currentPage \<le> totalPages"
  shows "currentPage \<in> set (getPages currentPage totalPages maxVisiblePages)"
proof -
  define n where "n = min maxVisiblePages totalPages"
  define s where "s = max (min (currentPage - n div 2) (totalPages - n + 1)) 1"
  define e where "e = min (s + n - 1) totalPages"
  have eq: "getPages currentPage totalPages maxVisiblePages = [s .. e]"
    by (simp add: getPages_upto Let_def n_def s_def e_def)
  have n: "1 \<le> n" "n \<le> totalPages" using assms by (simp_all add: n_def)
  have half: "0 \<le> n div 2" "n div 2 \<le> n - 1"
    using n(1) by simp_all
  have s1: "s \<le> currentPage"
    using assms(3) half(1) unfolding s_def by linarith
  have s2: "currentPage - n div 2 \<le> s \<or> totalPages - n + 1 \<le> s"
    unfolding s_def by linarith
  have "currentPage \<le> s + n - 1"
    using s2 half(2) assms(4) by linarith
  then have "currentPage \<le> e"
    using assms(4) by (simp add: e_def)
  then show ?thesis using s1 unfolding eq by simp
qed

subsection \<open>Where the numbers of JavaScript are exact\<close>

lemma ulp_below: "a < 2 ^ 53 \<Longrightarrow> ulp a = 1"
  by (subst ulp.simps) simp

lemma ulp_binade: "2 ^ 53 \<le> a \<Longrightarrow> a < 2 ^ 54 \<Longrightarrow> ulp a = 2"
  by (subst ulp.simps) (simp add: ulp_below)

lemma roundToDouble_exact:
  assumes "\<bar>x\<bar> \<le> 2 ^ 53"
  shows "roundToDouble x = x"
proof (cases "\<bar>x\<bar> < 2 ^ 53")
  case True
  then show ?thesis by (simp add: roundToDouble_def ulp_below)
next
  case False
  with assms have x: "\<bar>x\<bar> = 2 ^ 53" by simp
  then have u: "ulp \<bar>x\<bar> = 2" by (simp add: ulp_binade)
  from x have "x = 2 * 2 ^ 52 \<or> x = 2 * (- (2 ^ 52))" by (simp add: abs_if split: if_splits)
  then have "x div 2 * 2 = x" "x mod 2 = 0" by auto
  then show ?thesis
    unfolding roundToDouble_def u Let_def by simp
qed

lemma fromExact_exact:
  assumes "\<bar>x\<bar> \<le> 2 ^ 53"
  shows "fromExact x = Finite x"
proof -
  have "(2::int) ^ 53 < 2 ^ 1024" by (rule power_strict_increasing) simp_all
  with assms have "x < 2 ^ 1024" "- (2 ^ 1024) < x" by linarith+
  then show ?thesis
    using assms by (simp add: fromExact_def roundToDouble_exact)
qed

lemma add_exact: "\<bar>a + b\<bar> \<le> 2 ^ 53 \<Longrightarrow> add (Finite a) (Finite b) = Finite (a + b)"
  by (simp add: fromExact_exact)

lemma sub_exact: "\<bar>a - b\<bar> \<le> 2 ^ 53 \<Longrightarrow> sub (Finite a) (Finite b) = Finite (a - b)"
  by (simp add: sub_def fromExact_exact)

lemma Math_min_Finite: "Math_min (Finite a) (Finite b) = Finite (min a b)"
  by (simp add: Math_min_def min_def)

lemma Math_max_Finite: "Math_max (Finite a) (Finite b) = Finite (max a b)"
  by (simp add: Math_max_def max_def)

lemma Array_from_Finite:
  assumes "l \<le> 2 ^ 32 - 1"
  shows "Array_from (Finite l) mapFn = Inr (map (\<lambda>index. mapFn (Finite (int index))) [0 ..< nat l])"
proof -
  have "(2::int) ^ 32 - 1 \<le> 2 ^ 53 - 1" by simp
  with assms have "ToLength (Finite l) = (if l \<le> 0 then 0 else l)" by simp
  then show ?thesis using assms by (auto simp: Array_from_def Let_def)
qed

subsection \<open>Rounding to the nearest double\<close>

lemma ulp_rec: "2 ^ 53 \<le> a \<Longrightarrow> ulp a = 2 * ulp (a div 2)"
  by (subst ulp.simps) simp

lemma ulp_pow2: "\<exists>k. ulp a = 2 ^ k"
proof (induction a rule: ulp.induct)
  case (1 a)
  show ?case
  proof (cases "a < 2 ^ 53")
    case True
    then have "ulp a = 2 ^ 0" by (simp add: ulp_below)
    then show ?thesis by blast
  next
    case False
    then obtain k where "ulp (a div 2) = 2 ^ k" using 1 by blast
    then have "ulp a = 2 ^ Suc k" using False by (simp add: ulp_rec)
    then show ?thesis by blast
  qed
qed

lemma ulp_pos: "0 < ulp a"
  using ulp_pow2 [of a] by auto

lemma ulp_bounds: "2 ^ 53 \<le> a \<Longrightarrow> 2 ^ 52 * ulp a \<le> a \<and> a < 2 ^ 53 * ulp a"
proof (induction a rule: ulp.induct)
  case (1 a)
  have u: "ulp a = 2 * ulp (a div 2)" using 1(2) by (rule ulp_rec)
  show ?case
  proof (cases "a div 2 < 2 ^ 53")
    case True
    then have "ulp (a div 2) = 1" by (rule ulp_below)
    then have "ulp a = 2" using u by simp
    moreover have "a < 2 * 2 ^ 53" using True by linarith
    ultimately show ?thesis using 1(2) by simp
  next
    case False
    then have "2 ^ 53 \<le> a div 2" by simp
    moreover have "\<not> a < 2 ^ 53" using 1(2) by simp
    ultimately have ih: "2 ^ 52 * ulp (a div 2) \<le> a div 2" "a div 2 < 2 ^ 53 * ulp (a div 2)"
      using 1(1) by blast+
    have "2 * (a div 2) \<le> a" "a < 2 * (a div 2) + 2" by linarith+
    then show ?thesis using ih unfolding u by linarith
  qed
qed

lemma ulp_unique:
  assumes "2 ^ 52 * 2 ^ k \<le> a" and "a < 2 ^ 53 * 2 ^ k" and "0 < k"
  shows "ulp a = 2 ^ k"
proof -
  have "(2::int) ^ 52 * 2 ^ 1 \<le> 2 ^ 52 * 2 ^ k"
    using assms(3) by (intro mult_left_mono power_increasing) simp_all
  then have big: "2 ^ 53 \<le> a" using assms(1) by simp
  obtain j where j: "ulp a = 2 ^ j" using ulp_pow2 by blast
  have b: "2 ^ 52 * 2 ^ j \<le> a" "a < 2 ^ 53 * 2 ^ j"
    using ulp_bounds [OF big] j by simp_all
  have "(2::int) ^ (52 + j) < 2 ^ (53 + k)"
    using b(1) assms(2) by (simp add: power_add)
  then have "52 + j < 53 + k" by (simp add: power_strict_increasing_iff)
  moreover have "(2::int) ^ (52 + k) < 2 ^ (53 + j)"
    using b(2) assms(1) by (simp add: power_add)
  then have "52 + k < 53 + j" by (simp add: power_strict_increasing_iff)
  ultimately have "j = k" by simp
  then show ?thesis using j by simp
qed

lemma ulp_mono: "a \<le> b \<Longrightarrow> ulp a \<le> ulp b"
proof (induction b arbitrary: a rule: ulp.induct)
  case (1 b)
  show ?case
  proof (cases "a < 2 ^ 53")
    case True
    then have "ulp a = 1" by (rule ulp_below)
    then show ?thesis using ulp_pos [of b] by simp
  next
    case False
    then have b: "\<not> b < 2 ^ 53" using 1(2) by simp
    have "a div 2 \<le> b div 2" using 1(2) by (rule zdiv_mono1) simp
    then have "ulp (a div 2) \<le> ulp (b div 2)" using 1(1) b by blast
    moreover have "ulp a = 2 * ulp (a div 2)" using False by (intro ulp_rec) simp
    moreover have "ulp b = 2 * ulp (b div 2)" using b by (intro ulp_rec) simp
    ultimately show ?thesis by simp
  qed
qed


lemma round_nonneg_cases:
  assumes "0 \<le> x"
  defines "u \<equiv> ulp x" and "lo \<equiv> (x div ulp x) * ulp x"
  shows "lo \<le> x" and "x < lo + u"
    and "roundToDouble x = lo \<or> roundToDouble x = lo + u"
    and "\<bar>roundToDouble x - x\<bar> \<le> x - lo" and "\<bar>roundToDouble x - x\<bar> \<le> lo + u - x"
proof -
  have up: "0 < u" by (simp add: u_def ulp_pos)
  have m: "x mod u = x - lo" unfolding lo_def u_def
    using div_mult_mod_eq [of x "ulp x"] by linarith
  have m0: "0 \<le> x mod u" "x mod u < u" using up by simp_all
  show 1: "lo \<le> x" using m m0 by linarith
  show 2: "x < lo + u" using m m0 by linarith
  have ax: "\<bar>x\<bar> = x" using assms(1) by simp
  have R: "roundToDouble x =
             (if 2 * (x - lo) < u \<or> (2 * (x - lo) = u \<and> even (x div u)) then lo else lo + u)"
    unfolding roundToDouble_def ax Let_def m [unfolded u_def] lo_def u_def
    by (simp add: algebra_simps)
  show "roundToDouble x = lo \<or> roundToDouble x = lo + u" unfolding R by simp
  show "\<bar>roundToDouble x - x\<bar> \<le> x - lo" unfolding R using 1 2 by (auto split: if_splits)
  show "\<bar>roundToDouble x - x\<bar> \<le> lo + u - x" unfolding R using 1 2 by (auto split: if_splits)
qed

lemma rep_small: "0 \<le> x \<Longrightarrow> x < 2 ^ 53 \<Longrightarrow> representable x"
  by (simp add: representable_def ulp_below)

lemma round_rep:
  assumes "0 \<le> x" and "representable x"
  shows "roundToDouble x = x"
proof -
  have "x mod ulp x = 0" using assms by (simp add: representable_def)
  moreover from this have "x div ulp x * ulp x = x" by auto
  ultimately show ?thesis
    using assms(1) ulp_pos [of x] by (simp add: roundToDouble_def Let_def)
qed

lemma rep_multiple:
  assumes "2 ^ 53 \<le> x" and "m mod ulp x = 0" and "2 ^ 52 * ulp x \<le> m" and "m \<le> 2 ^ 53 * ulp x"
  shows "representable m"
proof -
  obtain k where k: "ulp x = 2 ^ k" using ulp_pow2 by blast
  have "ulp x \<noteq> 1"
    using ulp_bounds [OF assms(1)] assms(1) by auto
  then have k0: "0 < k" using k by (cases k) simp_all
  have "(0::int) \<le> 2 ^ 52 * ulp x" using ulp_pos [of x] by simp
  then have mpos: "0 \<le> m" using assms(3) by linarith
  show ?thesis
  proof (cases "m < 2 ^ 53 * ulp x")
    case True
    then have "ulp m = 2 ^ k" using assms(3) k k0 by (intro ulp_unique) simp_all
    then show ?thesis using assms(2) k mpos by (simp add: representable_def)
  next
    case False
    then have m: "m = 2 ^ 53 * 2 ^ k" using assms(4) k by simp
    then have "2 ^ 52 * 2 ^ Suc k \<le> m" "m < 2 ^ 53 * 2 ^ Suc k" by simp_all
    then have "ulp m = 2 ^ Suc k" by (intro ulp_unique) simp_all
    moreover have "m = 2 ^ 52 * 2 ^ Suc k" using m by simp
    ultimately show ?thesis using mpos by (simp add: representable_def)
  qed
qed


lemma round_big_window:
  assumes "2 ^ 53 \<le> x"
  defines "u \<equiv> ulp x" and "lo \<equiv> (x div ulp x) * ulp x"
  shows "2 ^ 52 * u \<le> lo" and "lo + u \<le> 2 ^ 53 * u" and "lo mod u = 0" and "(lo + u) mod u = 0"
proof -
  have up: "0 < u" by (simp add: u_def ulp_pos)
  have b: "2 ^ 52 * u \<le> x" "x < 2 ^ 53 * u" using ulp_bounds [OF assms(1)] by (simp_all add: u_def)
  have "(2 ^ 52 * u) div u \<le> x div u" using b(1) up by (intro zdiv_mono1) simp_all
  then have q1: "2 ^ 52 \<le> x div u" using up by simp
  have "x div u * u \<le> x" using up div_mult_mod_eq [of x u] pos_mod_sign [of u x] by linarith
  then have "x div u * u < 2 ^ 53 * u" using b(2) by linarith
  then have "x div u < 2 ^ 53" using up by (simp only: mult_less_cancel_right_pos)
  then have q2: "x div u + 1 \<le> 2 ^ 53" by simp
  have lo: "lo = x div u * u" by (simp add: lo_def u_def)
  show "2 ^ 52 * u \<le> lo" unfolding lo using q1 up by (simp add: mult_right_mono)
  have "(x div u + 1) * u \<le> 2 ^ 53 * u" using q2 up by (intro mult_right_mono) simp_all
  then show "lo + u \<le> 2 ^ 53 * u" unfolding lo by (simp add: algebra_simps)
  show "lo mod u = 0" unfolding lo by simp
  show "(lo + u) mod u = 0" unfolding lo by simp
qed

lemma rep_round:
  assumes "0 \<le> x"
  shows "representable (roundToDouble x)" and "0 \<le> roundToDouble x"
proof -
  have "representable (roundToDouble x) \<and> 0 \<le> roundToDouble x"
  proof (cases "x < 2 ^ 53")
    case True
    then have "roundToDouble x = x" using assms by (simp add: roundToDouble_exact)
    then show ?thesis using True assms by (simp add: rep_small)
  next
    case False
    then have big: "2 ^ 53 \<le> x" by simp
    define u where "u = ulp x"
    define lo where "lo = (x div ulp x) * ulp x"
    have up: "0 < u" by (simp add: u_def ulp_pos)
    have w: "2 ^ 52 * u \<le> lo" "lo + u \<le> 2 ^ 53 * u" "lo mod u = 0" "(lo + u) mod u = 0"
      using round_big_window [OF big] by (simp_all add: u_def lo_def)
    have "representable lo" using big w up unfolding u_def by (intro rep_multiple [of x]) simp_all
    moreover have "representable (lo + u)" using big w up unfolding u_def by (intro rep_multiple [of x]) simp_all
    moreover have "(0::int) \<le> 2 ^ 52 * u" using up by simp
    then have "0 \<le> lo" using w(1) by linarith
    moreover have "roundToDouble x = lo \<or> roundToDouble x = lo + u"
      using round_nonneg_cases(3) [OF assms] by (simp add: u_def lo_def)
    ultimately show ?thesis using up by auto
  qed
  then show "representable (roundToDouble x)" and "0 \<le> roundToDouble x" by simp_all
qed

lemma no_rep_between:
  assumes "0 \<le> x" and "representable r" and "0 \<le> r"
  shows "r \<le> (x div ulp x) * ulp x \<or> (x div ulp x) * ulp x + ulp x \<le> r"
proof (cases "x < 2 ^ 53")
  case True
  then have "ulp x = 1" by (rule ulp_below)
  then show ?thesis by simp linarith
next
  case False
  then have big: "2 ^ 53 \<le> x" by simp
  define u where "u = ulp x"
  define lo where "lo = (x div ulp x) * ulp x"
  have up: "0 < u" by (simp add: u_def ulp_pos)
  have w: "2 ^ 52 * u \<le> lo" "lo + u \<le> 2 ^ 53 * u" "lo mod u = 0"
    using round_big_window [OF big] by (simp_all add: u_def lo_def)
  obtain k where k: "u = 2 ^ k" using ulp_pow2 u_def by blast
  have "u \<noteq> 1" using ulp_bounds [OF big] big by (auto simp: u_def)
  then have k0: "0 < k" using k by (cases k) simp_all
  show ?thesis
  proof (rule ccontr)
    assume "\<not> ?thesis"
    then have r: "lo < r" "r < lo + u" by (simp_all add: lo_def u_def)
    then have "2 ^ 52 * 2 ^ k \<le> r" "r < 2 ^ 53 * 2 ^ k" using w k by simp_all
    then have "ulp r = u" using k0 k by (simp add: ulp_unique)
    then have "r mod u = 0" using assms(2,3) by (simp add: representable_def)
    then obtain j where j: "r = j * u" by (metis mod_eq_0_iff_dvd dvd_def mult.commute)
    from w(3) obtain i where i: "lo = i * u" by (metis mod_eq_0_iff_dvd dvd_def mult.commute)
    have "i * u < j * u" "j * u < (i + 1) * u" using r i j by (simp_all add: algebra_simps)
    then have "i < j" "j < i + 1" using up by (simp_all add: mult_less_cancel_right_pos)
    then show False by simp
  qed
qed

lemma round_nearest:
  assumes "0 \<le> x" and "representable r" and "0 \<le> r"
  shows "\<bar>roundToDouble x - x\<bar> \<le> \<bar>r - x\<bar>"
  using no_rep_between [OF assms] round_nonneg_cases(1,2,4,5) [OF assms(1)]
  by linarith

lemma round_mono:
  assumes "0 \<le> x" and "x \<le> y"
  shows "roundToDouble x \<le> roundToDouble y"
proof (rule ccontr)
  assume "\<not> ?thesis"
  then have lt: "roundToDouble y < roundToDouble x" by simp
  have y: "0 \<le> y" using assms by simp
  have 1: "\<bar>roundToDouble x - x\<bar> \<le> \<bar>roundToDouble y - x\<bar>"
    using round_nearest [OF assms(1) rep_round [OF y]] .
  have 2: "\<bar>roundToDouble y - y\<bar> \<le> \<bar>roundToDouble x - y\<bar>"
    using round_nearest [OF y rep_round [OF assms(1)]] .
  have "x \<noteq> y" using lt by auto
  then have "x < y" using assms(2) by simp
  then show False using 1 2 lt by linarith
qed

lemma round_above:
  assumes "0 \<le> s" and "representable s" and "0 \<le> k"
  shows "roundToDouble (s + k) \<le> s + 2 * k"
  using round_nearest [of "s + k" s] assms by simp


lemma rep_dvd:
  assumes "representable r" and "2 ^ 52 * 2 ^ k \<le> r"
  shows "2 ^ k dvd r"
proof (cases k)
  case 0
  then show ?thesis by simp
next
  case (Suc k')
  have "ulp (2 ^ 52 * 2 ^ k) = 2 ^ k" using Suc by (intro ulp_unique) simp_all
  then have le: "2 ^ k \<le> ulp r" using ulp_mono [OF assms(2)] by simp
  obtain j where j: "ulp r = 2 ^ j" using ulp_pow2 by blast
  have "k \<le> j" using le j by (simp add: power_increasing_iff)
  then have "(2::int) ^ k dvd 2 ^ j" by (rule le_imp_power_dvd)
  moreover have "(0::int) \<le> 2 ^ 52 * 2 ^ k" by simp
  then have "0 \<le> r" using assms(2) by linarith
  then have "ulp r dvd r" using assms(1) by (simp add: representable_def mod_eq_0_iff_dvd)
  ultimately show ?thesis using j by (metis dvd_trans)
qed

lemma ulp_big: "2 \<le> ulp x \<Longrightarrow> 2 ^ 52 * ulp x \<le> x"
proof -
  assume u: "2 \<le> ulp x"
  have "\<not> x < 2 ^ 53" using u ulp_below [of x] by auto
  then show ?thesis using ulp_bounds [of x] by simp
qed

lemma round_down_stays:
  assumes "representable t" and "5 \<le> t" and "roundToDouble (t - 5) = t"
  shows "roundToDouble (t + 1) = t"
proof -
  define x where "x = t - 5"
  define u where "u = ulp x"
  define lo where "lo = (x div ulp x) * ulp x"
  have x0: "0 \<le> x" using assms(2) by (simp add: x_def)
  have c: "lo \<le> x" "roundToDouble x = lo \<or> roundToDouble x = lo + u"
    "\<bar>roundToDouble x - x\<bar> \<le> x - lo"
    using round_nonneg_cases(1,3,4) [OF x0] by (simp_all add: u_def lo_def)
  have R: "roundToDouble x = t" using assms(3) by (simp add: x_def)
  have "u \<ge> 10" using c R by (auto simp: x_def)
  then have "2 ^ 52 * u \<le> x" unfolding u_def by (intro ulp_big) simp
  then have "2 ^ 52 * 2 ^ 3 \<le> t" using \<open>u \<ge> 10\<close> by (simp add: x_def)
  then have "2 ^ 3 dvd t" using assms(1) by (rule rep_dvd [rotated])
  then have d: "8 dvd t" by simp
  have t0: "0 \<le> t" using assms(2) by simp
  have "0 \<le> t + 1" using t0 by simp
  then have r: "representable (roundToDouble (t + 1))" by (rule rep_round)
  have lo': "t \<le> roundToDouble (t + 1)"
    using round_mono [of t "t + 1"] round_rep [OF t0 assms(1)] t0 by simp
  have hi': "roundToDouble (t + 1) \<le> t + 2"
    using round_above [OF t0 assms(1), of 1] by simp
  have "2 ^ 52 * 2 ^ 3 \<le> roundToDouble (t + 1)" using lo' \<open>2 ^ 52 * 2 ^ 3 \<le> t\<close> by linarith
  then have "2 ^ 3 dvd roundToDouble (t + 1)" using r by (rule rep_dvd [rotated])
  then have "8 dvd roundToDouble (t + 1)" by simp
  then show ?thesis using d lo' hi' by presburger
qed

lemma round_up_returns:
  assumes "representable s" and "1 \<le> s" and "roundToDouble (s + 5) = s"
  shows "roundToDouble (s - 1) = s"
proof -
  define x where "x = s + 5"
  define u where "u = ulp x"
  define lo where "lo = (x div ulp x) * ulp x"
  have x0: "0 \<le> x" using assms(2) by (simp add: x_def)
  have c: "x < lo + u" "roundToDouble x = lo \<or> roundToDouble x = lo + u"
    "\<bar>roundToDouble x - x\<bar> \<le> lo + u - x"
    using round_nonneg_cases(2,3,5) [OF x0] by (simp_all add: u_def lo_def)
  have R: "roundToDouble x = s" using assms(3) by (simp add: x_def)
  have "u \<ge> 10" using c R by (auto simp: x_def)
  then have "2 ^ 52 * u \<le> x" unfolding u_def by (intro ulp_big) simp
  then have big: "2 ^ 52 * 2 ^ 3 \<le> s - 2" using \<open>u \<ge> 10\<close> by (simp add: x_def)
  then have "2 ^ 52 * 2 ^ 3 \<le> s" by simp
  then have "2 ^ 3 dvd s" using assms(1) by (rule rep_dvd [rotated])
  then have d: "8 dvd s" by simp
  have s0: "0 \<le> s" "0 \<le> s - 1" using assms(2) by simp_all
  have r: "representable (roundToDouble (s - 1))" using s0(2) by (rule rep_round)
  have hi': "roundToDouble (s - 1) \<le> s"
    using round_mono [of "s - 1" s] round_rep [OF s0(1) assms(1)] s0 by simp
  have "\<bar>roundToDouble (s - 1) - (s - 1)\<bar> \<le> \<bar>s - (s - 1)\<bar>"
    using s0 assms(1) by (intro round_nearest) simp_all
  then have lo': "s - 2 \<le> roundToDouble (s - 1)" by simp
  have "2 ^ 52 * 2 ^ 3 \<le> roundToDouble (s - 1)" using lo' big by linarith
  then have "2 ^ 3 dvd roundToDouble (s - 1)" using r by (rule rep_dvd [rotated])
  then have "8 dvd roundToDouble (s - 1)" by simp
  then show ?thesis using d lo' hi' by presburger
qed

lemma round_nonpos:
  assumes "y \<le> 0"
  shows "roundToDouble y \<le> 0"
proof -
  define u where "u = ulp \<bar>y\<bar>"
  have up: "0 < u" by (simp add: u_def ulp_pos)
  have R: "roundToDouble y =
             (if 2 * (y mod u) < u \<or> (2 * (y mod u) = u \<and> even (y div u))
              then y div u * u else (y div u + 1) * u)"
    unfolding roundToDouble_def Let_def u_def ..
  have lo: "y div u * u \<le> y" using up div_mult_mod_eq [of y u] pos_mod_sign [of u y] by linarith
  show ?thesis
  proof (cases "y mod u = 0")
    case True
    then have "y div u * u = y" by auto
    then show ?thesis unfolding R using True up assms by simp
  next
    case False
    then have "y div u * u \<noteq> y" by (metis mod_mult_self2_is_0)
    then have "y div u * u < 0" using lo assms by linarith
    then have "y div u < 0" using up by (simp add: mult_less_0_iff)
    then have "(y div u + 1) * u \<le> 0" using up by (simp add: mult_le_0_iff)
    moreover have "y div u * u \<le> 0" using lo assms by linarith
    ultimately show ?thesis unfolding R by simp
  qed
qed


lemma fromExact_nonneg:
  assumes "0 \<le> x" and "roundToDouble x < 2 ^ 1024"
  shows "fromExact x = Finite (roundToDouble x)"
proof -
  have "0 \<le> roundToDouble x" using assms(1) by (rule rep_round)
  moreover have "(0::int) < 2 ^ 1024" by simp
  ultimately have "\<not> roundToDouble x \<le> - (2 ^ 1024)" by linarith
  then show ?thesis using assms(2) by (simp add: fromExact_def Let_def)
qed

lemma fromExact_cases:
  "fromExact x = Finite (roundToDouble x) \<or> fromExact x = PosInfinity
     \<or> fromExact x = NegInfinity"
  by (simp add: fromExact_def Let_def)

lemma startPage_cases:
  assumes "a = Finite x \<or> a = PosInfinity \<or> a = NegInfinity" and "1 \<le> b"
  shows "\<exists>s. Math_max (Math_min a (Finite b)) (Finite 1) = Finite s
              \<and> 1 \<le> s \<and> s \<le> b \<and> (s = b \<or> s = 1 \<or> a = Finite s)"
  using assms by (auto simp: Math_min_def Math_max_def)

lemma isDouble_room:
  assumes "isDouble t" and "0 \<le> t"
  shows "t + 10 < 2 ^ 1024"
proof (cases "t < 2 ^ 52 * 2 ^ 4")
  case True
  have "(2::int) ^ 52 * 2 ^ 4 + 10 < 2 ^ 57" by simp
  also have "(2::int) ^ 57 < 2 ^ 1024" by (rule power_strict_increasing) simp_all
  finally show ?thesis using True by linarith
next
  case False
  define M :: int where "M = 2 ^ 1024"
  have "representable t" using assms by (simp add: isDouble_def representable_def)
  then have "2 ^ 4 dvd t" using False by (intro rep_dvd) simp_all
  then have "16 dvd t" by simp
  moreover have "(2::int) ^ 4 dvd 2 ^ 1024" by (rule le_imp_power_dvd) simp
  then have "16 dvd M" by (simp add: M_def)
  moreover have "t < M" using assms by (simp add: isDouble_def M_def)
  ultimately have "t + 10 < M" by presburger
  then show ?thesis by (simp add: M_def)
qed

subsection \<open>The window in exact arithmetic and on doubles\<close>

lemma getPages_number_exact:
  assumes "0 < totalPages" and "1 \<le> maxVisiblePages"
    and "1 \<le> currentPage" and "currentPage \<le> totalPages"
    and "totalPages \<le> 2 ^ 53 - 1" and "min maxVisiblePages totalPages \<le> 2 ^ 32 - 1"
  shows "getPages_number (Finite currentPage) (Finite totalPages) (Finite maxVisiblePages)
           = Inr (map Finite (getPages currentPage totalPages maxVisiblePages))"
proof -
  define n where "n = min maxVisiblePages totalPages"
  define h where "h = n div 2"
  define s where "s = max (min (currentPage - h) (totalPages - n + 1)) 1"
  define e where "e = min (s + n - 1) totalPages"
  have n: "1 \<le> n" "n \<le> totalPages" "n \<le> 2 ^ 32 - 1"
    using assms by (simp_all add: n_def)
  have h: "0 \<le> h" "h \<le> n" using n(1) by (simp_all add: h_def)
  have s: "1 \<le> s" "s \<le> totalPages - n + 1"
    using n by (auto simp: s_def)
  have e: "e = s + n - 1" using s(2) by (simp add: e_def)
  have big: "totalPages \<le> 2 ^ 53 - 1" by (rule assms(5))
  have 1: "Math_min (Finite maxVisiblePages) (Finite totalPages) = Finite n"
    by (simp add: Math_min_Finite n_def)
  have 2: "Math_floor_half (Finite n) = Finite h" by (simp add: h_def)
  have 3: "sub (Finite currentPage) (Finite h) = Finite (currentPage - h)"
    using assms(3,4) h n(2) big by (intro sub_exact) linarith
  have 4: "sub (Finite totalPages) (Finite n) = Finite (totalPages - n)"
    using n big by (intro sub_exact) linarith
  have 5: "add (Finite (totalPages - n)) (Finite 1) = Finite (totalPages - n + 1)"
    using n big by (intro add_exact) linarith
  have 6: "add (Finite s) (Finite n) = Finite (s + n)"
    using s n big by (intro add_exact) linarith
  have 7: "sub (Finite (s + n)) (Finite 1) = Finite (s + n - 1)"
    using s n big by (intro sub_exact) linarith
  have 8: "sub (Finite e) (Finite s) = Finite (e - s)"
    using s n big e by (intro sub_exact) linarith
  have 9: "add (Finite (e - s)) (Finite 1) = Finite (e - s + 1)"
    using s n big e by (intro add_exact) linarith
  have len: "e - s + 1 = n" using e by simp
  have elems: "map (\<lambda>index. add (Finite s) (Finite (int index))) [0 ..< nat n]
                 = map Finite (map (\<lambda>index. s + int index) [0 ..< nat n])"
  proof -
    have "add (Finite s) (Finite (int index)) = Finite (s + int index)" if "index < nat n" for index
      using that s n big by (intro add_exact) linarith
    then show ?thesis by simp
  qed
  have startPage_eq: "Math_max
                 (Math_min (sub (Finite currentPage) (Math_floor_half (Finite n)))
                           (add (sub (Finite totalPages) (Finite n)) (Finite 1)))
                 (Finite 1) = Finite s"
    by (simp only: 2 3 4 5 Math_min_Finite Math_max_Finite s_def)
  have endPage_eq: "Math_min (sub (add (Finite s) (Finite n)) (Finite 1)) (Finite totalPages) = Finite e"
    by (simp only: 6 7 Math_min_Finite e_def)
  have length_eq: "add (sub (Finite e) (Finite s)) (Finite 1) = Finite n"
    by (simp only: 8 9 len)
  have "getPages_number (Finite currentPage) (Finite totalPages) (Finite maxVisiblePages)
          = Array_from (Finite n) (\<lambda>index. add (Finite s) index)"
    by (simp only: getPages_number_def Let_def 1 startPage_eq endPage_eq length_eq)
  also have "\<dots> = Inr (map (\<lambda>index. add (Finite s) (Finite (int index))) [0 ..< nat n])"
    using n(3) by (rule Array_from_Finite)
  also have "\<dots> = Inr (map Finite (map (\<lambda>index. s + int index) [0 ..< nat n]))"
    by (simp only: elems)
  also have "map (\<lambda>index. s + int index) [0 ..< nat n] = getPages currentPage totalPages maxVisiblePages"
    unfolding getPages_def Let_def n_def [symmetric] h_def [symmetric] s_def [symmetric]
      e_def [symmetric] len ..
  finally show ?thesis .
qed

lemma getPages_number_beyond_safe:
  "getPages_number (Finite (2 ^ 53)) (Finite (2 ^ 53)) (Finite 5)
     = Inr (map Finite [2 ^ 53 - 4, 2 ^ 53 - 3, 2 ^ 53 - 2, 2 ^ 53 - 1])"
  by code_simp

lemma getPages_number_max_safe:
  "getPages_number (Finite (2 ^ 53 - 1)) (Finite (2 ^ 53 - 1)) (Finite 5)
     = Inr (map Finite [2 ^ 53 - 5, 2 ^ 53 - 4, 2 ^ 53 - 3, 2 ^ 53 - 2, 2 ^ 53 - 1])"
  by code_simp

subsection \<open>The bounds of the window on doubles\<close>

text \<open>
  With five visible pages, the window of the computation on doubles lies between 1 and
  the number of pages as well, and is empty only for no pages, for every number of pages
  that is a double and every current page: where the sums round, they round to doubles
  that stay between the start page and the end page.
\<close>

lemma getPages_number_empty:
  "getPages_number (Finite currentPage) (Finite 0) (Finite 5) = Inr []"
proof -
  have a: "sub (Finite currentPage) (Finite 0) = Finite (roundToDouble currentPage)
             \<or> sub (Finite currentPage) (Finite 0) = PosInfinity
             \<or> sub (Finite currentPage) (Finite 0) = NegInfinity"
    using fromExact_cases [of currentPage] by (simp add: sub_def)
  obtain s where s: "Math_max (Math_min (sub (Finite currentPage) (Finite 0)) (Finite 1)) (Finite 1)
                       = Finite s" "1 \<le> s" "s \<le> 1"
    using startPage_cases [OF a, of 1] by auto
  then have s1: "s = 1" by simp
  have 1: "Math_min (Finite 5) (Finite 0) = Finite 0" by (simp add: Math_min_Finite)
  have 2: "Math_floor_half (Finite 0) = Finite 0" by simp
  have 3: "sub (Finite 0) (Finite 0) = Finite 0" using sub_exact [of 0 0] by simp
  have 4: "add (Finite 0) (Finite 1) = Finite 1" using add_exact [of 0 1] by simp
  have 5: "add (Finite 1) (Finite 0) = Finite 1" using add_exact [of 1 0] by simp
  have 6: "sub (Finite 1) (Finite 1) = Finite 0" using sub_exact [of 1 1] by simp
  have 7: "Math_min (Finite 0) (Finite 0) = Finite 0" by (simp add: Math_min_Finite)
  have 8: "sub (Finite 0) (Finite 1) = Finite (- 1)" using sub_exact [of 0 1] by simp
  have 9: "add (Finite (- 1)) (Finite 1) = Finite 0" using add_exact [of "- 1" 1] by simp
  have 10: "Array_from (Finite 0) mapFn = Inr []" for mapFn
    using Array_from_Finite [of 0 mapFn] by simp
  show ?thesis
    by (simp only: getPages_number_def Let_def 1 2 3 4 s(1) s1 5 6 7 8 9 10)
qed

lemma getPages_number_window:
  assumes "isDouble totalPages" and "1 \<le> totalPages"
  shows "\<exists>pages. getPages_number (Finite currentPage) (Finite totalPages) (Finite 5)
                    = Inr (map Finite pages)
               \<and> (\<forall>p \<in> set pages. 1 \<le> p \<and> p \<le> totalPages) \<and> pages \<noteq> []"
proof -
  define t where "t = totalPages"
  define n where "n = min 5 t"
  define h where "h = n div 2"
  have t: "representable t" "t < 2 ^ 1024" "1 \<le> t" "0 \<le> t"
    using assms by (simp_all add: isDouble_def representable_def t_def)
  have room: "t + 10 < 2 ^ 1024" using isDouble_room [OF assms(1)] assms(2) by (simp add: t_def)
  have Rt: "roundToDouble t = t" using t by (intro round_rep) simp_all
  have n: "1 \<le> n" "n \<le> 5" "n \<le> t" using t(3) by (simp_all add: n_def)
  \<comment> \<open>the upper clamp of the start page\<close>
  define b0 where "b0 = roundToDouble (t - n)"
  define b where "b = roundToDouble (b0 + 1)"
  have b0: "0 \<le> b0" "b0 \<le> t"
    using rep_round(2) [of "t - n"] round_mono [of "t - n" t] n Rt by (simp_all add: b0_def)
  have b1: "1 \<le> b"
    using round_mono [of 1 "b0 + 1"] b0(1) roundToDouble_exact [of 1] by (simp add: b_def)
  have b2: "b \<le> t"
  proof (cases "b0 = t")
    case False
    then have "b0 + 1 \<le> t" using b0(2) by simp
    then show ?thesis using round_mono [of "b0 + 1" t] b0(1) Rt by (simp add: b_def)
  next
    case True
    have "n = 5"
    proof (rule ccontr)
      assume "n \<noteq> 5"
      then have "n = t" using n by (simp add: n_def min_def split: if_splits)
      then have "b0 = 0" using roundToDouble_exact [of 0] by (simp add: b0_def)
      then show False using True t(3) by simp
    qed
    then have "roundToDouble (t - 5) = t" "5 \<le> t" using True n(3) by (simp_all add: b0_def)
    then have "roundToDouble (t + 1) = t" using t(1) by (intro round_down_stays)
    then show ?thesis using True by (simp add: b_def)
  qed
  have repb: "representable b" using b0(1) by (simp add: b_def rep_round(1))
  have B0: "sub (Finite t) (Finite n) = Finite b0"
    using fromExact_nonneg [of "t - n"] n(3) b0(2) t(2) by (simp add: sub_def b0_def)
  have B: "add (Finite b0) (Finite 1) = Finite b"
    using fromExact_nonneg [of "b0 + 1"] b0(1) b2 t(2) by (simp add: b_def)
  \<comment> \<open>the start page\<close>
  have a: "sub (Finite currentPage) (Finite h) = Finite (roundToDouble (currentPage - h))
             \<or> sub (Finite currentPage) (Finite h) = PosInfinity
             \<or> sub (Finite currentPage) (Finite h) = NegInfinity"
    using fromExact_cases [of "currentPage - h"] by (simp add: sub_def)
  obtain s where s: "Math_max (Math_min (sub (Finite currentPage) (Finite h)) (Finite b)) (Finite 1)
                       = Finite s" "1 \<le> s" "s \<le> b"
      "s = b \<or> s = 1 \<or> sub (Finite currentPage) (Finite h) = Finite s"
    using startPage_cases [OF a b1] by blast
  have reps: "representable s"
  proof -
    consider "s = b" | "s = 1" | "sub (Finite currentPage) (Finite h) = Finite s" using s(4) by blast
    then show ?thesis
    proof cases
      case 1 then show ?thesis using repb by simp
    next
      case 2 then show ?thesis by (simp add: rep_small)
    next
      case 3
      then have eq: "s = roundToDouble (currentPage - h)" using a by simp
      have "0 \<le> currentPage - h"
      proof (rule ccontr)
        assume "\<not> 0 \<le> currentPage - h"
        then have "roundToDouble (currentPage - h) \<le> 0" by (intro round_nonpos) simp
        then show False using eq s(2) by simp
      qed
      then show ?thesis unfolding eq by (rule rep_round)
    qed
  qed
  have s0: "0 \<le> s" "s \<le> t" using s(2,3) b2 by simp_all
  have Rs: "roundToDouble s = s" using s0(1) reps by (rule round_rep)
  \<comment> \<open>the end page\<close>
  define e0 where "e0 = roundToDouble (s + n)"
  define e1 where "e1 = roundToDouble (e0 - 1)"
  define e where "e = min e1 t"
  have e0: "s \<le> e0" "e0 \<le> s + 10" "representable e0"
    using round_mono [of s "s + n"] round_above [OF s0(1) reps, of n] rep_round(1) [of "s + n"]
      n s0(1) Rs by (simp_all add: e0_def)
  have Re0: "roundToDouble e0 = e0" using e0 s0(1) by (intro round_rep) simp_all
  have e1: "e1 \<le> e0" "s \<le> e1" "representable e1"
  proof -
    show "e1 \<le> e0" using round_mono [of "e0 - 1" e0] e0(1) s(2) Re0 by (simp add: e1_def)
    show "representable e1" using e0(1) s(2) by (simp add: e1_def rep_round(1))
    show "s \<le> e1"
    proof (cases "e0 = s")
      case False
      then have "s \<le> e0 - 1" using e0(1) by simp
      then show ?thesis using round_mono [of s "e0 - 1"] s0(1) Rs by (simp add: e1_def)
    next
      case True
      have "n = 5"
      proof (rule ccontr)
        assume "n \<noteq> 5"
        then have "n = t" using n by (simp add: n_def min_def split: if_splits)
        then have "\<bar>s + n\<bar> \<le> 2 ^ 53" using s0 n(2) s(2) by simp
        then have "e0 = s + n" by (simp add: e0_def roundToDouble_exact)
        then show False using True n(1) by simp
      qed
      then have "roundToDouble (s + 5) = s" using True by (simp add: e0_def)
      then have "roundToDouble (s - 1) = s" using reps s(2) by (intro round_up_returns)
      then show ?thesis using True by (simp add: e1_def)
    qed
  qed
  have e: "s \<le> e" "e \<le> t" "e \<le> s + 10" "representable e"
    using e1 e0 s0(2) t(1) by (auto simp: e_def min_def)
  have Re: "roundToDouble e = e" using e s0(1) by (intro round_rep) simp_all
  have E0: "add (Finite s) (Finite n) = Finite e0"
    using fromExact_nonneg [of "s + n"] s0 n(1) e0(2) room by (simp add: e0_def)
  have E1: "sub (Finite e0) (Finite 1) = Finite e1"
    using fromExact_nonneg [of "e0 - 1"] e0 e1(1) s(2) s0(2) room by (simp add: sub_def e1_def)
  have E: "Math_min (Finite e1) (Finite t) = Finite e" by (simp add: Math_min_Finite e_def)
  \<comment> \<open>the length\<close>
  define l where "l = e - s + 1"
  have l: "1 \<le> l" "l \<le> 11" using e by (simp_all add: l_def)
  have D: "sub (Finite e) (Finite s) = Finite (e - s)" using e by (intro sub_exact) simp
  have L: "add (Finite (e - s)) (Finite 1) = Finite l"
    unfolding l_def using e by (intro add_exact) simp
  \<comment> \<open>the elements\<close>
  define pages where "pages = map (\<lambda>index. roundToDouble (s + int index)) [0 ..< nat l]"
  have elem: "add (Finite s) (Finite (int index)) = Finite (roundToDouble (s + int index))
                \<and> s \<le> roundToDouble (s + int index) \<and> roundToDouble (s + int index) \<le> e"
    if "index < nat l" for index
  proof -
    have i: "s + int index \<le> e" using that by (simp add: l_def)
    have up: "roundToDouble (s + int index) \<le> e"
      using round_mono [of "s + int index" e] i s0(1) Re by simp
    have lo: "s \<le> roundToDouble (s + int index)"
      using round_mono [of s "s + int index"] s0(1) Rs by simp
    have "fromExact (s + int index) = Finite (roundToDouble (s + int index))"
      using up e(2) t(2) s0(1) by (intro fromExact_nonneg) simp_all
    then show ?thesis using up lo by simp
  qed
  have M: "map (\<lambda>index. add (Finite s) (Finite (int index))) [0 ..< nat l] = map Finite pages"
    using elem by (simp add: pages_def)
  have N1: "Math_min (Finite 5) (Finite t) = Finite n" by (simp add: Math_min_Finite n_def)
  have H: "Math_floor_half (Finite n) = Finite h" by (simp add: h_def)
  have "getPages_number (Finite currentPage) (Finite t) (Finite 5)
          = Array_from (Finite l) (\<lambda>index. add (Finite s) index)"
    by (simp only: getPages_number_def Let_def N1 H B0 B s(1) E0 E1 E D L)
  also have "\<dots> = Inr (map (\<lambda>index. add (Finite s) (Finite (int index))) [0 ..< nat l])"
    using l(2) by (intro Array_from_Finite) simp
  finally have result: "getPages_number (Finite currentPage) (Finite t) (Finite 5)
                          = Inr (map Finite pages)"
    by (simp only: M)
  have "\<forall>p \<in> set pages. 1 \<le> p \<and> p \<le> t"
    using elem s(2) e(2) by (fastforce simp: pages_def)
  moreover have "pages \<noteq> []" using l(1) by (simp add: pages_def)
  ultimately show ?thesis using result unfolding t_def by blast
qed

lemma getPages_number_within_bounds:
  assumes "isDouble totalPages" and "0 \<le> totalPages"
  shows "\<exists>pages. getPages_number (Finite currentPage) (Finite totalPages) (Finite 5)
                    = Inr (map Finite pages)
               \<and> (\<forall>p \<in> set pages. 1 \<le> p \<and> p \<le> totalPages)
               \<and> (pages = [] \<longleftrightarrow> totalPages = 0)"
proof (cases "totalPages = 0")
  case True
  then show ?thesis using getPages_number_empty [of currentPage] by simp
next
  case False
  then have "1 \<le> totalPages" using assms(2) by simp
  then show ?thesis using getPages_number_window [OF assms(1), of currentPage] False by blast
qed

subsection \<open>Length and content of the window\<close>

text \<open>
  C2, as stated: for every \<open>totalPages > 0\<close>, \<open>maxVisiblePages \<ge> 1\<close> and \<open>currentPage\<close>
  between 1 and \<open>totalPages\<close> the sequence has length \<open>min maxVisiblePages totalPages\<close>.
  It fails where the numbers of JavaScript stop being exact: for \<open>totalPages = 2 ^ 53\<close>,
  \<open>currentPage = 2 ^ 53\<close> and \<open>maxVisiblePages = 5\<close> the sum \<^verbatim>\<open>startPage + 5\<close> rounds down and
  the sequence has four pages, not five.
\<close>

theorem getPages_length_counterexample:
  "getPages_number (Finite (2 ^ 53)) (Finite (2 ^ 53)) (Finite 5)
     = Inr (map Finite [2 ^ 53 - 4, 2 ^ 53 - 3, 2 ^ 53 - 2, 2 ^ 53 - 1])
   \<and> int (length [2 ^ 53 - 4, 2 ^ 53 - 3, 2 ^ 53 - 2, 2 ^ 53 - 1 :: int]) \<noteq> min 5 (2 ^ 53)"
  using getPages_number_beyond_safe by simp

text \<open>
  C2, amended. For every \<open>totalPages > 0\<close>, every \<open>maxVisiblePages \<ge> 1\<close> and every
  \<open>currentPage\<close> between 1 and \<open>totalPages\<close>, where \<open>totalPages\<close> is at most \<open>2 ^ 53 - 1\<close>
  (\<^verbatim>\<open>Number.MAX_SAFE_INTEGER\<close>) and \<open>min maxVisiblePages totalPages\<close> is at most
  \<open>2 ^ 32 - 1\<close> (the largest array length), \<open>getPages\<close> returns a sequence of length exactly
  \<open>min maxVisiblePages totalPages\<close>, and it is the contiguous ascending integer sequence
  from its first element to its last element.
\<close>

theorem getPages_number_length_contiguous:
  assumes "0 < totalPages" and "1 \<le> maxVisiblePages"
    and "1 \<le> currentPage" and "currentPage \<le> totalPages"
    and "totalPages \<le> 2 ^ 53 - 1" and "min maxVisiblePages totalPages \<le> 2 ^ 32 - 1"
  shows "\<exists>pages.
           getPages_number (Finite currentPage) (Finite totalPages) (Finite maxVisiblePages)
             = Inr (map Finite pages)
         \<and> int (length pages) = min maxVisiblePages totalPages
         \<and> pages = [hd pages .. last pages]"
  using getPages_number_exact [OF assms] getPages_exact_length [OF assms(1-4)]
  by blast

theorem getPages_number_length_contiguous_witness:
  "(0::int) < 10 \<and> (1::int) \<le> 5 \<and> (1::int) \<le> 10 \<and> (10::int) \<le> 10
   \<and> (10::int) \<le> 2 ^ 53 - 1 \<and> min (5::int) 10 \<le> 2 ^ 32 - 1
   \<and> (\<exists>pages. getPages_number (Finite 10) (Finite 10) (Finite 5) = Inr (map Finite pages)
         \<and> int (length pages) = min 5 10 \<and> pages = [hd pages .. last pages])
   \<and> getPages_number (Finite 10) (Finite 10) (Finite 5) = Inr (map Finite [6, 7, 8, 9, 10])"
proof -
  have "getPages_number (Finite 10) (Finite 10) (Finite 5) = Inr (map Finite [6, 7, 8, 9, 10])"
    by code_simp
  then show ?thesis
    using getPages_number_length_contiguous [of 10 5 10] by simp
qed

text \<open>
  C3, as stated: for every \<open>totalPages \<ge> maxVisiblePages \<ge> 1\<close> and \<open>currentPage\<close> between 1
  and \<open>totalPages\<close> the sequence contains \<open>currentPage\<close>. It fails at the same input: for
  \<open>totalPages = currentPage = 2 ^ 53\<close> and \<open>maxVisiblePages = 5\<close> the sequence ends at
  \<open>2 ^ 53 - 1\<close>, one short of the current page.
\<close>

theorem getPages_contains_counterexample:
  "getPages_number (Finite (2 ^ 53)) (Finite (2 ^ 53)) (Finite 5)
     = Inr (map Finite [2 ^ 53 - 4, 2 ^ 53 - 3, 2 ^ 53 - 2, 2 ^ 53 - 1])
   \<and> Finite (2 ^ 53) \<notin> set (map Finite [2 ^ 53 - 4, 2 ^ 53 - 3, 2 ^ 53 - 2, 2 ^ 53 - 1])"
  using getPages_number_beyond_safe by simp

text \<open>
  C3, amended. For every \<open>totalPages \<ge> maxVisiblePages \<ge> 1\<close> and every \<open>currentPage\<close>
  between 1 and \<open>totalPages\<close>, where \<open>totalPages\<close> is at most \<open>2 ^ 53 - 1\<close>
  (\<^verbatim>\<open>Number.MAX_SAFE_INTEGER\<close>) and \<open>maxVisiblePages\<close> is at most \<open>2 ^ 32 - 1\<close> (the largest
  array length), \<open>getPages\<close> returns a sequence that contains \<open>currentPage\<close>: the clamps on
  the start page never push an in-range current page out of the window.
\<close>

theorem getPages_number_contains_current:
  assumes "1 \<le> maxVisiblePages" and "maxVisiblePages \<le> totalPages"
    and "1 \<le> currentPage" and "currentPage \<le> totalPages"
    and "totalPages \<le> 2 ^ 53 - 1" and "maxVisiblePages \<le> 2 ^ 32 - 1"
  shows "\<exists>pages.
           getPages_number (Finite currentPage) (Finite totalPages) (Finite maxVisiblePages)
             = Inr pages
         \<and> Finite currentPage \<in> set pages"
proof -
  have "0 < totalPages" "min maxVisiblePages totalPages \<le> 2 ^ 32 - 1"
    using assms by simp_all
  then have "getPages_number (Finite currentPage) (Finite totalPages) (Finite maxVisiblePages)
               = Inr (map Finite (getPages currentPage totalPages maxVisiblePages))"
    using assms by (intro getPages_number_exact)
  moreover have "Finite currentPage
                   \<in> set (map Finite (getPages currentPage totalPages maxVisiblePages))"
    using getPages_exact_member [OF assms(1-4)] by simp
  ultimately show ?thesis by blast
qed

theorem getPages_number_contains_current_witness:
  "(1::int) \<le> 5 \<and> (5::int) \<le> 10 \<and> (1::int) \<le> 9 \<and> (9::int) \<le> 10
   \<and> (10::int) \<le> 2 ^ 53 - 1 \<and> (5::int) \<le> 2 ^ 32 - 1
   \<and> (\<exists>pages. getPages_number (Finite 9) (Finite 10) (Finite 5) = Inr pages
         \<and> Finite 9 \<in> set pages)
   \<and> getPages_number (Finite 9) (Finite 10) (Finite 5) = Inr (map Finite [6, 7, 8, 9, 10])"
proof -
  have "getPages_number (Finite 9) (Finite 10) (Finite 5) = Inr (map Finite [6, 7, 8, 9, 10])"
    by code_simp
  then show ?thesis
    using getPages_number_contains_current [of 5 10 9] by simp
qed

section \<open>Error classification\<close>

lemma then_promise_simps:
  "then_promise (Inl reason) f = Inl reason"
  "then_promise (Inr v) f = f v"
  by (simp_all add: then_promise_def)

lemma catch_promise_simps:
  "catch_promise (Inl reason) h = h reason"
  "catch_promise (Inr v) h = Inr v"
  by (simp_all add: catch_promise_def)

lemmas operation_defs =
  fetchCustomerListing_def fetchCustomer_def registerCustomer_def updateCustomer_def
  deleteCustomer_def

text \<open>
  C4. For every request operation (list customers, get customer, create, update, delete),
  if the response has a non-success status (\<^verbatim>\<open>response.ok\<close> is false), the operation fails
  with a \<^verbatim>\<open>NetError\<close> of kind server-error whose message is exactly the text of the
  response body, as \<^verbatim>\<open>response.text()\<close> delivers it; the body is not parsed, whatever
  \<^verbatim>\<open>response.json()\<close> and the schema would do with it.
\<close>

theorem not_ok_server_error:
  assumes "\<not> ok response" and "text_result response = Inr body"
  shows "fetchCustomerListing CustomerListingSchema (Inr response)
           = Inl (ThrownNetError (NetError ServerError (JString body) None))
       \<and> fetchCustomer GetCustomerSchema (Inr response)
           = Inl (ThrownNetError (NetError ServerError (JString body) None))
       \<and> registerCustomer (Inr response)
           = Inl (ThrownNetError (NetError ServerError (JString body) None))
       \<and> updateCustomer GetCustomerSchema' (Inr response)
           = Inl (ThrownNetError (NetError ServerError (JString body) None))
       \<and> deleteCustomer (Inr response)
           = Inl (ThrownNetError (NetError ServerError (JString body) None))"
  using assms by (simp add: operation_defs then_promise_simps catch_promise_simps)

theorem not_ok_server_error_witness:
  "\<not> ok boomResponse \<and> text_result boomResponse = Inr ''boom''
   \<and> fetchCustomerListing requireData (Inr boomResponse)
        = Inl (ThrownNetError (NetError ServerError (JString ''boom'') None))
   \<and> deleteCustomer (Inr boomResponse)
        = Inl (ThrownNetError (NetError ServerError (JString ''boom'') None))"
proof -
  have h: "\<not> ok boomResponse" "text_result boomResponse = Inr ''boom''"
    by (simp_all add: boomResponse_def)
  show ?thesis
    using h not_ok_server_error [OF h, of requireData requireData requireData] by simp
qed

text \<open>
  C5, as stated: the message of the validation-error is the comma-separated join of the
  messages of the issues. It is not: on the body \<^verbatim>\<open>{}\<close> the schema reports the single
  issue \<^verbatim>\<open>Required\<close>, and the classified error does not carry the message \<^verbatim>\<open>Required\<close>.
\<close>

theorem validation_error_message_counterexample:
  "fetchCustomerListing requireData (Inr emptyObjectResponse)
     \<noteq> Inl (ThrownNetError (NetError ValidationError
            (JString (join (map issue_message (issues requiredDataError)) '', ''))
            (Some (ThrownZodError requiredDataError))))"
  by (simp add: fetchCustomerListing_def emptyObjectResponse_def requireData_def parseAsync_def
      then_promise_simps catch_promise_simps requiredDataError_def requiredDataMessage_def)

text \<open>
  C5, amended. For every response body that fails the schema's validation, the operations
  that validate (list customers, get customer, update) fail with a \<^verbatim>\<open>NetError\<close> of kind
  validation-error whose message is the \<^verbatim>\<open>message\<close> property of the validation failure
  itself, and whose wrapped cause is the original validation failure.
\<close>

theorem validation_error_message:
  assumes "ok response" and "json_result response = Inr data" and "schema data = Inl error"
  shows "fetchCustomerListing schema (Inr response)
           = Inl (ThrownNetError (NetError ValidationError (JString (zod_message error))
                    (Some (ThrownZodError error))))
       \<and> fetchCustomer schema (Inr response)
           = Inl (ThrownNetError (NetError ValidationError (JString (zod_message error))
                    (Some (ThrownZodError error))))
       \<and> updateCustomer schema (Inr response)
           = Inl (ThrownNetError (NetError ValidationError (JString (zod_message error))
                    (Some (ThrownZodError error))))"
  using assms
  by (simp add: operation_defs parseAsync_def then_promise_simps catch_promise_simps)

theorem validation_error_message_witness:
  "ok emptyObjectResponse \<and> json_result emptyObjectResponse = Inr (JObject [])
   \<and> requireData (JObject []) = Inl requiredDataError
   \<and> fetchCustomerListing requireData (Inr emptyObjectResponse)
        = Inl (ThrownNetError (NetError ValidationError (JString requiredDataMessage)
                 (Some (ThrownZodError requiredDataError))))"
proof -
  have h: "ok emptyObjectResponse" "json_result emptyObjectResponse = Inr (JObject [])"
    "requireData (JObject []) = Inl requiredDataError"
    by (simp_all add: emptyObjectResponse_def requireData_def)
  have "zod_message requiredDataError = requiredDataMessage"
    by (simp add: requiredDataError_def)
  then show ?thesis
    using h validation_error_message
        [of emptyObjectResponse "JObject []" requireData requiredDataError]
    by simp
qed

text \<open>
  C6. A failure that is already a \<^verbatim>\<open>NetError\<close> passes the catch step of every request
  operation unchanged: the same kind, message and cause, and no second wrapping.
\<close>

theorem classified_error_passes_through:
  "catch_promise (Inl (ThrownNetError error)) catchHandler = Inl (ThrownNetError error)
   \<and> fetchCustomerListing CustomerListingSchema (Inl (ThrownNetError error))
        = Inl (ThrownNetError error)
   \<and> fetchCustomer GetCustomerSchema (Inl (ThrownNetError error)) = Inl (ThrownNetError error)
   \<and> registerCustomer (Inl (ThrownNetError error)) = Inl (ThrownNetError error)
   \<and> updateCustomer GetCustomerSchema' (Inl (ThrownNetError error)) = Inl (ThrownNetError error)
   \<and> deleteCustomer (Inl (ThrownNetError error)) = Inl (ThrownNetError error)"
  by (simp add: operation_defs then_promise_simps catch_promise_simps)

text \<open>
  C7 says that a thrown value that is no \<^verbatim>\<open>Error\<close> is classified unknown-error with
  its stringification as message. The handler reads the value's \<^verbatim>\<open>message\<close> property
  instead: a thrown string or number gives an unknown-error whose message is
  \<^verbatim>\<open>undefined\<close>, and a thrown \<^verbatim>\<open>null\<close> makes the handler itself fail with a
  \<^verbatim>\<open>TypeError\<close>, so that no \<^verbatim>\<open>NetError\<close> results at all.
\<close>

theorem thrown_string_message_undefined:
  "deleteCustomer (Inl (ThrownValue (JString ''boom'')))
     = Inl (ThrownNetError
         (NetError UnknownError JUndefined (Some (ThrownValue (JString ''boom'')))))
   \<and> deleteCustomer (Inl (ThrownValue (JNumber 42)))
     = Inl (ThrownNetError
         (NetError UnknownError JUndefined (Some (ThrownValue (JNumber 42)))))
   \<and> deleteCustomer (Inl (ThrownValue JNull)) = Inl (ThrownError (nullishTypeError ''null''))"
  by (simp add: deleteCustomer_def then_promise_simps catch_promise_simps)

section \<open>Form submission\<close>

lemma Mutate_in_register:
  "Mutate data \<in> set (register_onSubmit schema formData)
     \<longleftrightarrow> schema (collectPayload formData) = Inr data"
  by (auto simp: register_onSubmit_def Let_def split: sum.splits)

lemma Mutate_in_manage:
  "Mutate data \<in> set (manage_onSubmit schema formData)
     \<longleftrightarrow> schema (collectPayload formData) = Inr data"
  by (auto simp: manage_onSubmit_def Let_def split: sum.splits)

text \<open>
  C8, as stated: the message shown equals the comma-separated join of the field error
  messages. It does not: for the single issue \<^verbatim>\<open>Invalid email\<close> no alert with the text
  \<^verbatim>\<open>Invalid email\<close> is raised; the alert carries a second line.
\<close>

theorem invalid_form_alert_counterexample:
  "Alert (join (map issue_message (errors invalidEmailError)) '', '')
     \<notin> set (register_onSubmit rejectEmail invalidEmailForm)"
  by (simp add: register_onSubmit_def rejectEmail_def invalidEmailForm_def collectPayload_def
      assign_def invalidEmailError_def errors_def)

text \<open>
  C8, amended. A submission (register or update) whose payload fails \<^verbatim>\<open>safeParse\<close>
  prevents the default submission and raises one alert, whose text is the comma-separated
  join of the field error messages followed by a line break and
  \<^verbatim>\<open>Please correct the errors and try again.\<close>; nothing else happens, in particular no
  mutation. The mutation is invoked exactly when validation succeeds, with the validated
  data.
\<close>

theorem invalid_form_blocks_submission:
  "(RegisterCustomerSchema (collectPayload formData) = Inl error \<longrightarrow>
      register_onSubmit RegisterCustomerSchema formData
        = [PreventDefault,
           Alert (join (map issue_message (errors error)) '', ''
                  @ ''\<newline>Please correct the errors and try again.'')])
   \<and> (UpdateCustomerSchema (collectPayload formData) = Inl error \<longrightarrow>
      manage_onSubmit UpdateCustomerSchema formData
        = [PreventDefault,
           Alert (join (map issue_message (errors error)) '', ''
                  @ ''\<newline>Please correct the errors and try again.'')])
   \<and> (Mutate data \<in> set (register_onSubmit RegisterCustomerSchema formData)
        \<longleftrightarrow> RegisterCustomerSchema (collectPayload formData) = Inr data)
   \<and> (Mutate data' \<in> set (manage_onSubmit UpdateCustomerSchema formData)
        \<longleftrightarrow> UpdateCustomerSchema (collectPayload formData) = Inr data')"
  by (simp add: Mutate_in_register Mutate_in_manage)
     (simp add: register_onSubmit_def manage_onSubmit_def Let_def)

theorem invalid_form_blocks_submission_witness:
  "rejectEmail (collectPayload invalidEmailForm) = Inl invalidEmailError
   \<and> register_onSubmit rejectEmail invalidEmailForm
        = [PreventDefault, Alert ''Invalid email\<newline>Please correct the errors and try again.'']
   \<and> UpdateCustomerSchema_safeParse (collectPayload missingEmailForm) = Inl missingEmailError
   \<and> manage_onSubmit UpdateCustomerSchema_safeParse missingEmailForm
        = [PreventDefault, Alert ''Required\<newline>Please correct the errors and try again.'']
   \<and> Mutate (collectPayload validForm) \<in> set (register_onSubmit rejectEmail validForm)
   \<and> Mutate (collectPayload validForm |` set updateFields)
        \<in> set (manage_onSubmit UpdateCustomerSchema_safeParse validForm)"
proof -
  have h: "rejectEmail (collectPayload invalidEmailForm) = Inl invalidEmailError"
    by (simp add: rejectEmail_def collectPayload_def assign_def invalidEmailForm_def)
  have v: "rejectEmail (collectPayload validForm) = Inr (collectPayload validForm)"
    by (simp add: rejectEmail_def collectPayload_def assign_def validForm_def)
  have m: "join (map issue_message (errors invalidEmailError)) '', '' = ''Invalid email''"
    by (simp add: invalidEmailError_def errors_def)
  have h': "UpdateCustomerSchema_safeParse (collectPayload missingEmailForm)
              = Inl missingEmailError"
    by (simp add: UpdateCustomerSchema_safeParse_def updateFields_def collectPayload_def
        assign_def missingEmailForm_def missingEmailError_def)
  have v': "UpdateCustomerSchema_safeParse (collectPayload validForm)
              = Inr (collectPayload validForm |` set updateFields)"
    by (simp add: UpdateCustomerSchema_safeParse_def updateFields_def collectPayload_def
        assign_def validForm_def)
  have m': "join (map issue_message (errors missingEmailError)) '', '' = ''Required''"
    by (simp add: missingEmailError_def requiredIssue_def errors_def)
  show ?thesis
    using h v m h' v' m'
      invalid_form_blocks_submission
        [of rejectEmail invalidEmailForm invalidEmailError
            UpdateCustomerSchema_safeParse]
      invalid_form_blocks_submission
        [of rejectEmail missingEmailForm missingEmailError UpdateCustomerSchema_safeParse]
      invalid_form_blocks_submission
        [of rejectEmail validForm _ UpdateCustomerSchema_safeParse
            "collectPayload validForm" "collectPayload validForm |` set updateFields"]
    by simp
qed

section \<open>The listing after a delete\<close>

text \<open>
  C9. After every delete-customer mutation settles, fulfilled or rejected, the listing
  controller has reset the current page to 1 and invalidated the listing query of page 1
  and the current limit; the limit is unchanged.
\<close>

theorem delete_settled_resets_page:
  "page (delete_settled (deleteCustomer fetched) st) = 1
   \<and> limit (delete_settled (deleteCustomer fetched) st) = limit st
   \<and> invalidated (delete_settled (deleteCustomer fetched) st)
        = invalidated st @ [CustomerListing 1 (limit st)]
   \<and> delete_settled (Inl reason) st = delete_settled (Inr ()) st"
  by (simp add: delete_settled_def onSettled_def setPage_def invalidateQueries_def
      split: sum.splits)

end
